theory Spec2Isabelle
  imports Complex_Main "HOL-Library.Word"
begin

section \<open>JavaScript strings\<close>

text \<open>
  A JavaScript string is a sequence of UTF-16 code units. \<open>js\<close> embeds an ASCII literal
  of the source.
\<close>

type_synonym code_unit = "16 word"
type_synonym jsstring = "code_unit list"

definition js :: "string \<Rightarrow> jsstring" where
  "js s = map of_char s"

text \<open>
  \<open>String.prototype.trim\<close> removes WhiteSpace and LineTerminator code points from both
  ends (ECMAScript): TAB, LF, VT, FF, CR, SP, NBSP, U+1680, U+2000..U+200A, U+2028, U+2029,
  U+202F, U+205F, U+3000 and U+FEFF. All of them are single code units.
\<close>

definition isWhiteSpace :: "code_unit \<Rightarrow> bool" where
  "isWhiteSpace c =
     (c = 0x09 \<or> c = 0x0A \<or> c = 0x0B \<or> c = 0x0C \<or> c = 0x0D \<or> c = 0x20 \<or> c = 0xA0
      \<or> c = 0x1680 \<or> (0x2000 \<le> c \<and> c \<le> 0x200A) \<or> c = 0x2028 \<or> c = 0x2029
      \<or> c = 0x202F \<or> c = 0x205F \<or> c = 0x3000 \<or> c = 0xFEFF)"

definition trim :: "jsstring \<Rightarrow> jsstring" where
  "trim s = rev (dropWhile isWhiteSpace (rev (dropWhile isWhiteSpace s)))"

text \<open>A string is falsy exactly when it is empty.\<close>

definition truthy :: "jsstring \<Rightarrow> bool" where
  "truthy s = (s \<noteq> [])"

text \<open>\<open>a || b\<close> on a possibly undefined string \<open>a\<close>.\<close>

definition or_else :: "jsstring option \<Rightarrow> jsstring \<Rightarrow> jsstring" where
  "or_else a b = (case a of None \<Rightarrow> b | Some s \<Rightarrow> if truthy s then s else b)"

text \<open>Decimal digits of a number, as the template literal prints \<open>Date.now()\<close>.\<close>

fun decimal :: "nat \<Rightarrow> jsstring" where
  "decimal n = (if n < 10 then [of_nat (48 + n)] else decimal (n div 10) @ [of_nat (48 + n mod 10)])"

declare decimal.simps [simp del]

section \<open>The component \<open>SahayakMain\<close>\<close>

datatype mode = Guided | Autonomous

record history_item =
  h_command :: jsstring
  h_timestamp :: jsstring
  h_success :: bool

text \<open>
  An entry of the execution log is either an object of the backend's \<open>execution_log\<close>
  (opaque here: its JSON text) or \<open>{ error: message }\<close>, whose message may be undefined.
\<close>

datatype log_entry = Step jsstring | Error "jsstring option"

text \<open>The \<open>useState\<close> cells of the component.\<close>

record component =
  command :: jsstring
  loading :: bool
  executionLog :: "log_entry list"
  screenshots :: "jsstring list"
  history :: "history_item list"
  mode :: mode
  userId :: jsstring

definition initial_component :: component where
  "initial_component =
     \<lparr>command = [], loading = False, executionLog = [], screenshots = [], history = [],
      mode = Guided, userId = []\<rparr>"

text \<open>The body of \<open>axios.post(`${api}/execute`, ...)\<close>.\<close>

record request =
  user_id :: jsstring
  r_command :: jsstring
  r_mode :: mode

text \<open>
  \<open>response.data\<close>: \<open>success\<close> is the boolean the conditional tests; the other fields may
  be absent.
\<close>

record response_data =
  success :: bool
  message :: "jsstring option"
  execution_log :: "log_entry list option"
  screenshots_data :: "jsstring list option"

text \<open>
  The awaited promise either resolves with a response or the \<open>try\<close> block throws:
  \<open>Rejected detail msg\<close> carries \<open>error.response?.data?.detail\<close> and \<open>error.message\<close>.
\<close>

datatype outcome = Resolved response_data | Rejected "jsstring option" jsstring

text \<open>
  What the browser's storage throws: \<open>SecurityError\<close> when access to localStorage is
  blocked, \<open>QuotaExceededError\<close> when \<open>setItem\<close> finds the store full.
\<close>

datatype dom_exception = SecurityError | QuotaExceededError

text \<open>
  What the component does to the outside; \<open>Uncaught e\<close> is an exception that leaves a
  handler or an effect.
\<close>

datatype effect =
    ToastError jsstring
  | ToastSuccess jsstring
  | Post request
  | ConsoleError jsstring
  | Uncaught dom_exception

text \<open>
  \<open>handleExecute\<close> up to its \<open>await\<close>: the new state, the effects, and the command the
  continuation has captured when a request was sent.
\<close>

definition handleExecute :: "component \<Rightarrow> component \<times> effect list \<times> jsstring option" where
  "handleExecute c =
     (if \<not> truthy (trim (command c))
      then (c, [ToastError (js ''Please enter a command'')], None)
      else (c\<lparr>loading := True, executionLog := [], screenshots := []\<rparr>,
            [Post \<lparr>user_id = userId c, r_command = command c, r_mode = mode c\<rparr>],
            Some (command c)))"

text \<open>
  \<open>handleExecute\<close> after its \<open>await\<close>: \<open>cmd\<close> is the captured command, \<open>now\<close> is
  \<open>new Date().toISOString()\<close> at that moment. The \<open>finally\<close> block clears \<open>loading\<close>.
\<close>

definition settle :: "jsstring \<Rightarrow> outcome \<Rightarrow> jsstring \<Rightarrow> component \<Rightarrow> component \<times> effect list" where
  "settle cmd oc now c =
     (case oc of
        Resolved d \<Rightarrow>
          if success d
          then (c\<lparr>executionLog := (case execution_log d of None \<Rightarrow> [] | Some l \<Rightarrow> l),
                  screenshots := (case screenshots_data d of None \<Rightarrow> [] | Some l \<Rightarrow> l),
                  history := take 10 (\<lparr>h_command = cmd, h_timestamp = now, h_success = True\<rparr> # history c),
                  loading := False\<rparr>,
                [ToastSuccess (js ''Command executed successfully!'')])
          else (c\<lparr>executionLog := [Error (message d)], loading := False\<rparr>,
                [ToastError (or_else (message d) (js ''Execution failed''))])
      | Rejected detail msg \<Rightarrow>
          (c\<lparr>executionLog := [Error (Some msg)], loading := False\<rparr>,
           [ConsoleError msg, ToastError (or_else detail (js ''Failed to execute command''))]))"

text \<open>The \<open>disabled\<close> attribute of the Execute button.\<close>

definition disabled :: "component \<Rightarrow> bool" where
  "disabled c = (loading c \<or> \<not> truthy (trim (command c)))"

section \<open>The page: component state, requests in flight, localStorage\<close>

text \<open>
  \<open>handleExecute\<close> is asynchronous: between sending the request and the settling of its
  promise other handlers run. \<open>pending\<close> lists the calls that wait at their \<open>await\<close>,
  each with the command it has captured.

  localStorage is the browser's: its items, and how the store behaves. When it is
  \<open>Blocked\<close> every access throws \<open>SecurityError\<close>; when it is \<open>Full\<close> reading works and
  \<open>setItem\<close> throws \<open>QuotaExceededError\<close>.
\<close>

datatype store_state = Available | Full | Blocked

record world =
  ui :: component
  pending :: "jsstring list"
  localStorage :: "jsstring \<rightharpoonup> jsstring"
  store :: store_state

definition getItem :: "jsstring \<Rightarrow> world \<Rightarrow> dom_exception + jsstring option" where
  "getItem k w = (if store w = Blocked then Inl SecurityError else Inr (localStorage w k))"

definition setItem :: "jsstring \<Rightarrow> jsstring \<Rightarrow> world \<Rightarrow> dom_exception + world" where
  "setItem k v w =
     (case store w of
        Blocked \<Rightarrow> Inl SecurityError
      | Full \<Rightarrow> Inl QuotaExceededError
      | Available \<Rightarrow> Inr (w\<lparr>localStorage := (localStorage w)(k \<mapsto> v)\<rparr>))"

definition user_id_key :: jsstring where
  "user_id_key = js ''sahayak_user_id''"

text \<open>
  \<open>`user_${Date.now()}_${Math.random().toString(36).substr(2, 9)}`\<close>: \<open>now\<close> is the
  clock's value and \<open>rnd\<close> the substring taken from the random number's base-36 text.
\<close>

definition newUserId :: "nat \<Rightarrow> jsstring \<Rightarrow> jsstring" where
  "newUserId now rnd = js ''user_'' @ decimal now @ js ''_'' @ rnd"

text \<open>
  The \<open>else\<close> branch of the mount effect: \<open>localStorage.setItem\<close> comes first and is not
  inside a \<open>try\<close>; when it throws, \<open>setUserId\<close> is not reached.
\<close>

definition storeNewUserId :: "nat \<Rightarrow> jsstring \<Rightarrow> world \<Rightarrow> dom_exception + world" where
  "storeNewUserId now rnd w =
     (case setItem user_id_key (newUserId now rnd) w of
        Inl e \<Rightarrow> Inl e
      | Inr w' \<Rightarrow> Inr (w'\<lparr>ui := (ui w')\<lparr>userId := newUserId now rnd\<rparr>\<rparr>))"

text \<open>
  The effect run on mount: retrieve the stored user id or generate and store one. \<open>Inl e\<close>
  is the exception that leaves the effect; the state is then as it was.
\<close>

definition mountEffect :: "nat \<Rightarrow> jsstring \<Rightarrow> world \<Rightarrow> dom_exception + world" where
  "mountEffect now rnd w =
     (case getItem user_id_key w of
        Inl e \<Rightarrow> Inl e
      | Inr None \<Rightarrow> storeNewUserId now rnd w
      | Inr (Some storedUserId) \<Rightarrow>
          if truthy storedUserId
          then Inr (w\<lparr>ui := (ui w)\<lparr>userId := storedUserId\<rparr>\<rparr>)
          else storeNewUserId now rnd w)"

text \<open>
  A page load in a browser whose localStorage holds \<open>st\<close> and is available, before the
  mount effect; \<open>reload w\<close> is a load in the browser of \<open>w\<close>.
\<close>

definition boot :: "(jsstring \<rightharpoonup> jsstring) \<Rightarrow> world" where
  "boot st = \<lparr>ui = initial_component, pending = [], localStorage = st, store = Available\<rparr>"

definition reload :: "world \<Rightarrow> world" where
  "reload w = (boot (localStorage w))\<lparr>store := store w\<rparr>"

text \<open>
  What can happen to the page. \<open>Mount\<close> is a (re)load: the component starts from its
  initial state and the mount effect runs; requests of the previous page are gone.
  \<open>Settle i oc now\<close> settles the \<open>i\<close>-th request in flight. \<open>StoreBecomes\<close> is the
  browser's store changing its behaviour.
\<close>

datatype event =
    Mount nat jsstring
  | Change jsstring
  | SelectMode mode
  | Click
  | KeyPress jsstring bool
  | Recall nat
  | Settle nat outcome jsstring
  | StoreBecomes store_state

definition execute :: "world \<Rightarrow> world \<times> effect list" where
  "execute w =
     (case handleExecute (ui w) of
        (c, out, captured) \<Rightarrow>
          (w\<lparr>ui := c,
             pending := pending w @ (case captured of None \<Rightarrow> [] | Some cmd \<Rightarrow> [cmd])\<rparr>, out))"

text \<open>\<open>handleKeyPress\<close>: Enter without Shift executes; it does not look at \<open>loading\<close>.\<close>

definition handleKeyPress :: "jsstring \<Rightarrow> bool \<Rightarrow> world \<Rightarrow> world \<times> effect list" where
  "handleKeyPress key shiftKey w =
     (if key = js ''Enter'' \<and> \<not> shiftKey then execute w else (w, []))"

fun step :: "event \<Rightarrow> world \<Rightarrow> world \<times> effect list" where
  "step (Mount now rnd) w =
     (case mountEffect now rnd (reload w) of
        Inr w' \<Rightarrow> (w', [])
      | Inl e \<Rightarrow> (reload w, [Uncaught e]))"
| "step (Change s) w = (w\<lparr>ui := (ui w)\<lparr>command := s\<rparr>\<rparr>, [])"
| "step (SelectMode m) w = (w\<lparr>ui := (ui w)\<lparr>mode := m\<rparr>\<rparr>, [])"
| "step Click w = (if disabled (ui w) then (w, []) else execute w)"
| "step (KeyPress key shiftKey) w = handleKeyPress key shiftKey w"
| "step (Recall idx) w =
     (if idx < length (history (ui w))
      then (w\<lparr>ui := (ui w)\<lparr>command := h_command (history (ui w) ! idx)\<rparr>\<rparr>, [])
      else (w, []))"
| "step (Settle i oc now) w =
     (if i < length (pending w)
      then (case settle (pending w ! i) oc now (ui w) of
              (c, out) \<Rightarrow> (w\<lparr>ui := c, pending := take i (pending w) @ drop (Suc i) (pending w)\<rparr>, out))
      else (w, []))"
| "step (StoreBecomes s) w = (w\<lparr>store := s\<rparr>, [])"

fun run :: "event list \<Rightarrow> world \<Rightarrow> world \<times> effect list" where
  "run [] w = (w, [])"
| "run (e # es) w =
     (case step e w of (w', out) \<Rightarrow> (case run es w' of (w'', out') \<Rightarrow> (w'', out @ out')))"

text \<open>The requests among a list of effects.\<close>

fun requests :: "effect list \<Rightarrow> request list" where
  "requests [] = []"
| "requests (Post r # es) = r # requests es"
| "requests (_ # es) = requests es"

text \<open>Whether the response reports success.\<close>

fun succeeded :: "outcome \<Rightarrow> bool" where
  "succeeded (Resolved d) = success d"
| "succeeded (Rejected _ _) = False"

text \<open>
  Enter pressed while \<open>loading\<close> is set starts a second call of \<open>handleExecute\<close>;
  \<open>no_reentry evs w\<close> says that this does not happen along \<open>evs\<close> from \<open>w\<close>.
\<close>

definition reentry :: "event \<Rightarrow> world \<Rightarrow> bool" where
  "reentry e w =
     (case e of KeyPress key shiftKey \<Rightarrow> key = js ''Enter'' \<and> \<not> shiftKey \<and> loading (ui w)
      | _ \<Rightarrow> False)"

fun no_reentry :: "event list \<Rightarrow> world \<Rightarrow> bool" where
  "no_reentry [] w = True"
| "no_reentry (e # es) w = (\<not> reentry e w \<and> no_reentry es (fst (step e w)))"

text \<open>
  The mount effect of a load completes (it does not throw); \<open>loads_complete evs w\<close> says
  so of every load along \<open>evs\<close> from \<open>w\<close>.
\<close>

definition completes :: "event \<Rightarrow> world \<Rightarrow> bool" where
  "completes e w =
     (case e of
        Mount now rnd \<Rightarrow> (case mountEffect now rnd (reload w) of Inr w' \<Rightarrow> True | Inl x \<Rightarrow> False)
      | _ \<Rightarrow> True)"

fun loads_complete :: "event list \<Rightarrow> world \<Rightarrow> bool" where
  "loads_complete [] w = True"
| "loads_complete (e # es) w = (completes e w \<and> loads_complete es (fst (step e w)))"

text \<open>
  The command is blank: empty, or nothing but white space.
\<close>

definition blank :: "jsstring \<Rightarrow> bool" where
  "blank s = list_all isWhiteSpace s"

text \<open>
  At most one request is in flight, and \<open>loading\<close> is set exactly while it is.
\<close>

definition single_flight :: "world \<Rightarrow> bool" where
  "single_flight w = ((loading (ui w) \<longleftrightarrow> pending w \<noteq> []) \<and> length (pending w) \<le> 1)"

text \<open>
  localStorage holds the user id \<open>uid\<close>, which is not empty (\<open>kept\<close>); the component's
  user id is that one too (\<open>signed_in\<close>).
\<close>

definition kept :: "jsstring \<Rightarrow> world \<Rightarrow> bool" where
  "kept uid w = (uid \<noteq> [] \<and> localStorage w user_id_key = Some uid)"

definition signed_in :: "jsstring \<Rightarrow> world \<Rightarrow> bool" where
  "signed_in uid w = (kept uid w \<and> userId (ui w) = uid)"

text \<open>
  The entries that the events since the last load of the page have given rise to, newest
  first: \<open>noted\<close> for one event in the world it meets, \<open>recorded\<close> along a run.
\<close>

definition noted :: "history_item list \<Rightarrow> event \<Rightarrow> world \<Rightarrow> history_item list" where
  "noted acc e w =
     (case e of
        Mount now rnd \<Rightarrow> []
      | Settle i oc now \<Rightarrow>
          if i < length (pending w) \<and> succeeded oc
          then \<lparr>h_command = pending w ! i, h_timestamp = now, h_success = True\<rparr> # acc
          else acc
      | _ \<Rightarrow> acc)"

fun recorded :: "history_item list \<Rightarrow> event list \<Rightarrow> world \<Rightarrow> history_item list" where
  "recorded acc [] w = acc"
| "recorded acc (e # es) w = recorded (noted acc e w) es (fst (step e w))"

text \<open>Sample responses and a page with one request in flight.\<close>

definition ok_response :: response_data where
  "ok_response = \<lparr>success = True, message = None, execution_log = None, screenshots_data = None\<rparr>"

definition failed_response :: response_data where
  "failed_response =
     \<lparr>success = False, message = Some (js ''no''), execution_log = None, screenshots_data = None\<rparr>"

definition busy :: world where
  "busy = fst (run [Mount 0 [], Change (js ''a''), Click] (boot Map.empty))"

section \<open>The Human-Behavior Modulator\<close>

text \<open>
  Modelled from the spec: the source of randomness of the Human-Behavior Modulator, which is
  not among the sources. \<open>rnd k\<close> is the \<open>k\<close>-th number the generator returns, a sample
  of the unit interval; \<open>uniform a b\<close> scales it as \<^verbatim>\<open>random.uniform(a, b)\<close> does.
\<close>

type_synonym rng = "nat \<Rightarrow> real"


definition uniform :: "real \<Rightarrow> real \<Rightarrow> real \<Rightarrow> real" where
  "uniform a b u = a + (b - a) * u"

text \<open>
  Modelled from the spec: the configurable intervals, in seconds, with the documented
  defaults \<^verbatim>\<open>_human_delay(min_delay=0.5, max_delay=2.0)\<close> and
  \<^verbatim>\<open>random.uniform(0.05, 0.15)\<close> per character.
\<close>

record delay_config =
  min_delay :: real
  max_delay :: real
  char_min_delay :: real
  char_max_delay :: real


text \<open>
  Modelled from the spec: the primitive actions of a Step (the browser driver is not among
  the sources), and what the modulator does, in order: a pre-action delay, the action, and
  for typing one key stroke and one delay per character.
\<close>

datatype action =
    Navigate string
  | ClickOn string
  | TypeInto string string
  | Scroll int
  | Wait nat
  | Press string
  | Screenshot

datatype behaviour =
    PreDelay real
  | Perform action
  | KeyStroke char
  | CharDelay real


fun type_text :: "delay_config \<Rightarrow> rng \<Rightarrow> nat \<Rightarrow> string \<Rightarrow> behaviour list \<times> nat" where
  "type_text cfg rnd k [] = ([], k)"
| "type_text cfg rnd k (c # cs) =
     (case type_text cfg rnd (Suc k) cs of
        (out, k') \<Rightarrow>
          (KeyStroke c # CharDelay (uniform (char_min_delay cfg) (char_max_delay cfg) (rnd k)) # out,
           k'))"







section \<open>Properties of the component\<close>

lemmas eval_defs = boot_def reload_def mountEffect_def storeNewUserId_def getItem_def setItem_def
  initial_component_def handleKeyPress_def execute_def
  handleExecute_def settle_def disabled_def truthy_def trim_def isWhiteSpace_def js_def
  user_id_key_def newUserId_def blank_def reentry_def completes_def ok_response_def
  failed_response_def busy_def or_else_def

subsection \<open>The mount effect\<close>

lemma mountEffect_frame:
  "mountEffect now rnd w = Inr w' \<Longrightarrow>
     pending w' = pending w \<and> store w' = store w \<and> (\<exists>u. ui w' = (ui w)\<lparr>userId := u\<rparr>)"
  by (auto simp: mountEffect_def storeNewUserId_def getItem_def setItem_def
      split: sum.splits option.splits if_splits store_state.splits)

lemma mount_step_shape:
  "pending (fst (step (Mount now rnd) w)) = []
   \<and> store (fst (step (Mount now rnd) w)) = store w
   \<and> (\<exists>u. ui (fst (step (Mount now rnd) w)) = initial_component\<lparr>userId := u\<rparr>)"
proof (cases "mountEffect now rnd (reload w)")
  case (Inl e)
  have "initial_component = initial_component\<lparr>userId := []\<rparr>"
    by (simp add: initial_component_def)
  with Inl show ?thesis by (auto simp: reload_def boot_def)
next
  case (Inr w')
  from mountEffect_frame [OF Inr] Inr show ?thesis by (auto simp: reload_def boot_def)
qed

text \<open>
  The effect can fail: with no stored id and a full store \<open>setItem\<close> throws, the user id
  stays empty and nothing is stored; with a blocked store the first access throws.
\<close>

lemma mount_can_fail:
  "step (Mount 5 (js ''k3'')) ((boot Map.empty)\<lparr>store := Full\<rparr>)
     = ((boot Map.empty)\<lparr>store := Full\<rparr>, [Uncaught QuotaExceededError])
   \<and> step (Mount 5 (js ''k3'')) ((boot [user_id_key \<mapsto> js ''user_1_zz''])\<lparr>store := Blocked\<rparr>)
     = ((boot [user_id_key \<mapsto> js ''user_1_zz''])\<lparr>store := Blocked\<rparr>, [Uncaught SecurityError])"
  by (simp add: eval_defs)

subsection \<open>Blank commands and the Execute button\<close>

lemma dropWhile_all_iff: "(\<forall>x\<in>set (dropWhile P s). P x) \<longleftrightarrow> (\<forall>x\<in>set s. P x)"
  by (induction s) auto

lemma trim_empty_iff: "trim s = [] \<longleftrightarrow> blank s"
  by (simp add: trim_def blank_def list_all_iff dropWhile_eq_Nil_conv dropWhile_all_iff)

lemma handleExecute_blank:
  "blank (command c) \<Longrightarrow>
     handleExecute c = (c, [ToastError (js ''Please enter a command'')], None)"
  by (simp add: handleExecute_def truthy_def trim_empty_iff)

lemma execute_blank:
  "blank (command (ui w)) \<Longrightarrow> execute w = (w, [ToastError (js ''Please enter a command'')])"
  by (simp add: execute_def handleExecute_blank)

lemma disabled_iff: "disabled c \<longleftrightarrow> loading c \<or> blank (command c)"
  by (simp add: disabled_def truthy_def trim_empty_iff)

text \<open>
  The part of claim C8 that holds: a blank command sends no request and changes nothing,
  by click or by Enter, and the button is disabled when the command is blank or \<open>loading\<close>
  is set.
\<close>

lemma blank_command_no_request:
  "(blank (command c) \<longrightarrow>
        handleExecute c = (c, [ToastError (js ''Please enter a command'')], None))
   \<and> (blank (command (ui w)) \<longrightarrow>
        fst (step Click w) = w \<and> requests (snd (step Click w)) = []
        \<and> fst (step (KeyPress key shiftKey) w) = w
        \<and> requests (snd (step (KeyPress key shiftKey) w)) = [])
   \<and> (disabled c \<longleftrightarrow> loading c \<or> blank (command c))"
  by (auto simp: handleExecute_blank disabled_iff handleKeyPress_def execute_blank)

lemma settle_loading: "loading (fst (settle cmd oc now c)) = False"
  by (simp add: settle_def split: outcome.splits)

lemma single_flight_boot: "single_flight (boot st)"
  by (simp add: single_flight_def boot_def initial_component_def)

lemma single_flight_mount: "single_flight (fst (step (Mount now rnd) w))"
  using mount_step_shape [of now rnd w]
  by (auto simp: single_flight_def initial_component_def)

lemma single_flight_execute:
  "single_flight w \<Longrightarrow> \<not> loading (ui w) \<Longrightarrow> single_flight (fst (execute w))"
  by (auto simp: single_flight_def execute_def handleExecute_def)

lemma single_flight_step:
  assumes "single_flight w" and "\<not> reentry e w"
  shows "single_flight (fst (step e w))"
proof (cases e)
  case (Mount now rnd)
  then show ?thesis by (simp only: single_flight_mount)
next
  case (Change s)
  with assms show ?thesis by (simp add: single_flight_def)
next
  case (SelectMode m)
  with assms show ?thesis by (simp add: single_flight_def)
next
  case Click
  with assms show ?thesis
    by (simp add: single_flight_execute disabled_def)
next
  case (KeyPress key shiftKey)
  with assms show ?thesis
    by (auto simp: handleKeyPress_def reentry_def single_flight_execute)
next
  case (Recall idx)
  with assms show ?thesis by (simp add: single_flight_def)
next
  case (Settle i oc now)
  show ?thesis
  proof (cases "i < length (pending w)")
    case True
    with assms(1) obtain p where p: "pending w = [p]" "i = 0"
      by (cases "pending w") (auto simp: single_flight_def)
    then show ?thesis using Settle settle_loading [of p oc now "ui w"]
      by (simp add: single_flight_def split_beta)
  next
    case False
    with assms Settle show ?thesis by simp
  qed
next
  case (StoreBecomes s)
  with assms show ?thesis by (simp add: single_flight_def)
qed

lemma single_flight_run:
  "single_flight w \<Longrightarrow> no_reentry evs w \<Longrightarrow> single_flight (fst (run evs w))"
proof (induction evs arbitrary: w)
  case Nil
  then show ?case by simp
next
  case (Cons e evs)
  from Cons.prems have "single_flight (fst (step e w))" "no_reentry evs (fst (step e w))"
    by (simp_all add: single_flight_step)
  from Cons.IH [OF this] show ?case by (simp add: split_beta)
qed

text \<open>
  The click path is guarded: the button is disabled while \<open>loading\<close> is set. Were Enter
  ignored while \<open>loading\<close> is set as well, the button would be disabled whenever a request
  is in flight.
\<close>

lemma guarded_runs_disable_button:
  "no_reentry evs (boot st) \<Longrightarrow> pending (fst (run evs (boot st))) \<noteq> [] \<Longrightarrow>
     disabled (ui (fst (run evs (boot st))))"
  using single_flight_run [OF single_flight_boot, of evs st]
  by (simp add: single_flight_def disabled_iff)

text \<open>
  Claim C8, the failing input. The command is \<open>a\<close>; Enter is pressed twice, which sends two
  requests, since \<open>handleKeyPress\<close> calls \<open>handleExecute\<close> without looking at \<open>loading\<close>;
  then the first response arrives and its \<open>finally\<close> block clears \<open>loading\<close>. A request is
  still in flight and the Execute button is enabled.
\<close>

theorem execute_btn_enabled_in_flight:
  "pending (fst (run [Mount 0 [], Change (js ''a''), KeyPress (js ''Enter'') False,
                      KeyPress (js ''Enter'') False, Settle 0 (Resolved ok_response) (js ''t'')]
                     (boot Map.empty))) \<noteq> []
   \<and> \<not> disabled (ui (fst (run [Mount 0 [], Change (js ''a''), KeyPress (js ''Enter'') False,
                      KeyPress (js ''Enter'') False, Settle 0 (Resolved ok_response) (js ''t'')]
                     (boot Map.empty))))"
  by (simp add: eval_defs)

subsection \<open>The history list\<close>

lemma history_settle:
  "history (fst (settle cmd oc now c)) =
     (if succeeded oc
      then take 10 (\<lparr>h_command = cmd, h_timestamp = now, h_success = True\<rparr> # history c)
      else history c)"
  by (simp add: settle_def split: outcome.splits)

lemma history_execute: "history (ui (fst (execute w))) = history (ui w)"
  by (simp add: execute_def handleExecute_def)

lemma history_mount: "history (ui (fst (step (Mount now rnd) w))) = []"
  using mount_step_shape [of now rnd w] by (auto simp: initial_component_def)

lemma history_step:
  "history (ui (fst (step ev w))) =
     (case ev of
        Settle i oc now \<Rightarrow>
          if i < length (pending w) \<and> succeeded oc
          then take 10 (\<lparr>h_command = pending w ! i, h_timestamp = now, h_success = True\<rparr>
                        # history (ui w))
          else history (ui w)
      | Mount now rnd \<Rightarrow> []
      | _ \<Rightarrow> history (ui w))"
proof (cases ev)
  case (Settle i oc now)
  then show ?thesis
    using history_settle [of "pending w ! i" oc now "ui w"]
    by (simp add: split_beta)
next
  case (Mount now rnd)
  then show ?thesis by (simp only: history_mount event.case)
qed (simp_all add: history_execute handleKeyPress_def)

lemma history_step_length:
  "length (history (ui w)) \<le> 10 \<Longrightarrow> length (history (ui (fst (step ev w)))) \<le> 10"
  unfolding history_step by (cases ev) auto

lemma history_run_length:
  "length (history (ui w)) \<le> 10 \<Longrightarrow> length (history (ui (fst (run evs w)))) \<le> 10"
proof (induction evs arbitrary: w)
  case Nil
  then show ?case by simp
next
  case (Cons e evs)
  from Cons.IH [OF history_step_length [OF Cons.prems, of e]]
  show ?case by (simp add: split_beta)
qed

lemma take_Cons_take: "take n (x # take n ys) = take n (x # ys)"
  by (cases n) simp_all

lemma history_noted:
  "history (ui w) = take 10 acc \<Longrightarrow> history (ui (fst (step e w))) = take 10 (noted acc e w)"
  unfolding history_step noted_def by (cases e) (simp_all add: take_Cons_take)

lemma history_recorded:
  "history (ui w) = take 10 acc \<Longrightarrow>
     history (ui (fst (run evs w))) = take 10 (recorded acc evs w)"
proof (induction evs arbitrary: w acc)
  case Nil
  then show ?case by simp
next
  case (Cons e evs)
  from Cons.IH [OF history_noted [OF Cons.prems, of e]]
  show ?case by (simp add: split_beta)
qed

text \<open>
  Claim C9. Whatever has happened to the page since it was loaded, the history holds at most
  10 entries: they are the 10 most recent of the entries recorded for the requests that
  settled with a response whose \<open>success\<close> is true, newest first. An entry is added only
  then: the new entry (the command of that request, the time, success) is put in front of
  the older ones, which keep their order, and the list is cut to 10. A response without
  success, a failed request and every other event leave the history as it is (a reload
  starts from the empty history).
\<close>

theorem history_bounded_newest_first:
  "length (history (ui (fst (run evs (boot st))))) \<le> 10
   \<and> history (ui (fst (run evs (boot st)))) = take 10 (recorded [] evs (boot st))
   \<and> history (ui (fst (step ev w))) =
       (case ev of
          Settle i oc now \<Rightarrow>
            if i < length (pending w) \<and> succeeded oc
            then take 10 (\<lparr>h_command = pending w ! i, h_timestamp = now, h_success = True\<rparr>
                          # history (ui w))
            else history (ui w)
        | Mount now rnd \<Rightarrow> []
        | _ \<Rightarrow> history (ui w))"
proof (intro conjI)
  have "length (history (ui (boot st))) \<le> 10"
    by (simp add: boot_def initial_component_def)
  then show "length (history (ui (fst (run evs (boot st))))) \<le> 10"
    by (rule history_run_length)
  show "history (ui (fst (run evs (boot st)))) = take 10 (recorded [] evs (boot st))"
    by (rule history_recorded) (simp add: boot_def initial_component_def)
  show "history (ui (fst (step ev w))) =
       (case ev of
          Settle i oc now \<Rightarrow>
            if i < length (pending w) \<and> succeeded oc
            then take 10 (\<lparr>h_command = pending w ! i, h_timestamp = now, h_success = True\<rparr>
                          # history (ui w))
            else history (ui w)
        | Mount now rnd \<Rightarrow> []
        | _ \<Rightarrow> history (ui w))"
    by (rule history_step)
qed

theorem history_bounded_newest_first_witness:
  "length (history (ui (fst (run [Mount 0 [], Change (js ''a''), Click,
                                   Settle 0 (Resolved ok_response) (js ''t'')]
                                  (boot Map.empty))))) \<le> 10
   \<and> recorded [] [Mount 0 [], Change (js ''a''), Click,
                    Settle 0 (Resolved ok_response) (js ''t'')] (boot Map.empty)
       = [\<lparr>h_command = js ''a'', h_timestamp = js ''t'', h_success = True\<rparr>]
   \<and> history (ui (fst (step (Settle 0 (Resolved ok_response) (js ''t'')) busy)))
       = [\<lparr>h_command = js ''a'', h_timestamp = js ''t'', h_success = True\<rparr>]
   \<and> history (ui (fst (step (Settle 0 (Resolved failed_response) (js ''t'')) busy))) = []
   \<and> history (ui (fst (step (Settle 0 (Rejected None (js ''Network Error'')) (js ''t'')) busy)))
       = []"
  using history_bounded_newest_first [of "[Mount 0 [], Change (js ''a''), Click,
        Settle 0 (Resolved ok_response) (js ''t'')]"
      Map.empty "Settle 0 (Resolved ok_response) (js ''t'')" busy]
    history_bounded_newest_first [of "[]" Map.empty
      "Settle 0 (Resolved failed_response) (js ''t'')" busy]
    history_bounded_newest_first [of "[]" Map.empty
      "Settle 0 (Rejected None (js ''Network Error'')) (js ''t'')" busy]
  by (simp add: eval_defs noted_def)

subsection \<open>The user id\<close>

lemma newUserId_nonempty: "newUserId now rnd \<noteq> []"
  by (simp add: newUserId_def js_def)

lemma mountEffect_completes_iff:
  "(\<exists>w1. mountEffect now rnd w = Inr w1) \<longleftrightarrow>
     store w \<noteq> Blocked
     \<and> ((\<exists>v. localStorage w user_id_key = Some v \<and> v \<noteq> []) \<or> store w = Available)"
  by (cases "store w"; cases "localStorage w user_id_key")
     (auto simp: mountEffect_def storeNewUserId_def getItem_def setItem_def truthy_def)

lemma mountEffect_signed_in:
  "mountEffect now rnd w = Inr w1 \<Longrightarrow> signed_in (userId (ui w1)) w1"
  by (auto simp: signed_in_def kept_def mountEffect_def storeNewUserId_def getItem_def
      setItem_def truthy_def newUserId_nonempty
      split: sum.splits option.splits if_splits store_state.splits)

lemma mountEffect_reuse:
  "mountEffect now rnd w = Inr w1 \<Longrightarrow> localStorage w user_id_key = Some v \<Longrightarrow> v \<noteq> [] \<Longrightarrow>
     userId (ui w1) = v \<and> localStorage w1 = localStorage w"
  by (auto simp: mountEffect_def getItem_def truthy_def split: if_splits)

lemma mountEffect_fresh:
  "mountEffect now rnd w = Inr w1 \<Longrightarrow>
     localStorage w user_id_key = None \<or> localStorage w user_id_key = Some [] \<Longrightarrow>
     userId (ui w1) = newUserId now rnd"
  by (auto simp: mountEffect_def storeNewUserId_def getItem_def setItem_def truthy_def
      split: if_splits store_state.splits)

lemma requests_append: "requests (xs @ ys) = requests xs @ requests ys"
  by (induction xs rule: requests.induct) simp_all

lemma userId_settle: "userId (fst (settle cmd oc now c)) = userId c"
  by (simp add: settle_def split: outcome.splits)

lemma requests_settle: "requests (snd (settle cmd oc now c)) = []"
  by (simp add: settle_def split: outcome.splits)

lemma kept_reload: "kept uid w \<Longrightarrow> kept uid (reload w)"
  by (simp add: kept_def reload_def boot_def)

lemma kept_step: "kept uid w \<Longrightarrow> kept uid (fst (step e w))"
proof (cases e)
  case (Mount now rnd)
  assume k: "kept uid w"
  show ?thesis
  proof (cases "mountEffect now rnd (reload w)")
    case (Inl x)
    with Mount kept_reload [OF k] show ?thesis by simp
  next
    case (Inr w1)
    from kept_reload [OF k] have "localStorage (reload w) user_id_key = Some uid" "uid \<noteq> []"
      by (simp_all add: kept_def)
    from mountEffect_reuse [OF Inr this] this Mount Inr show ?thesis
      by (simp add: kept_def)
  qed
qed (auto simp: kept_def handleKeyPress_def execute_def split_beta)

lemma kept_run: "kept uid w \<Longrightarrow> kept uid (fst (run evs w))"
proof (induction evs arbitrary: w)
  case Nil
  then show ?case by simp
next
  case (Cons e evs)
  from Cons.IH [OF kept_step [OF Cons.prems, of e]] show ?case by (simp add: split_beta)
qed

lemma signed_in_execute:
  "signed_in uid w \<Longrightarrow>
     signed_in uid (fst (execute w)) \<and> (\<forall>r\<in>set (requests (snd (execute w))). user_id r = uid)"
  by (simp add: signed_in_def kept_def execute_def handleExecute_def)

lemma signed_in_step:
  assumes "signed_in uid w" and "completes e w"
  shows "signed_in uid (fst (step e w))
         \<and> (\<forall>r\<in>set (requests (snd (step e w))). user_id r = uid)"
proof (cases e)
  case (Mount now rnd)
  with assms(2) obtain w1 where w1: "mountEffect now rnd (reload w) = Inr w1"
    by (auto simp: completes_def split: sum.splits)
  from assms(1) have "localStorage (reload w) user_id_key = Some uid" "uid \<noteq> []"
    by (simp_all add: signed_in_def kept_def reload_def boot_def)
  from mountEffect_reuse [OF w1 this] this Mount w1 show ?thesis
    by (simp add: signed_in_def kept_def)
next
  case Click
  with assms signed_in_execute [OF assms(1)] show ?thesis by simp
next
  case (KeyPress key shiftKey)
  with assms signed_in_execute [OF assms(1)] show ?thesis by (simp add: handleKeyPress_def)
next
  case (Settle i oc now)
  with assms userId_settle [of "pending w ! i" oc now "ui w"]
    requests_settle [of "pending w ! i" oc now "ui w"]
  show ?thesis by (simp add: signed_in_def kept_def split_beta)
qed (use assms in \<open>simp_all add: signed_in_def kept_def\<close>)

lemma signed_in_run:
  "signed_in uid w \<Longrightarrow> loads_complete evs w \<Longrightarrow>
     signed_in uid (fst (run evs w)) \<and> (\<forall>r\<in>set (requests (snd (run evs w))). user_id r = uid)"
proof (induction evs arbitrary: w)
  case Nil
  then show ?case by simp
next
  case (Cons e evs)
  from Cons.prems have c: "completes e w" and l: "loads_complete evs (fst (step e w))"
    by simp_all
  from signed_in_step [OF Cons.prems(1) c]
  have 1: "signed_in uid (fst (step e w))"
    and 2: "\<forall>r\<in>set (requests (snd (step e w))). user_id r = uid" by simp_all
  from Cons.IH [OF 1 l] 2 show ?case
    by (auto simp: split_beta requests_append)
qed

text \<open>
  Claim C10, amended. The mount effect completes exactly when localStorage can be read and
  either holds a value that is not the empty string or can be written. When it completes,
  the user id is not empty and equals the value stored under \<open>sahayak_user_id\<close>: if
  localStorage held a value that is not the empty string, that value is the user id and
  localStorage is untouched; if it held none, or the empty string, a fresh id
  \<open>user_<time>_<random>\<close> is generated and stored. The stored value never changes
  afterwards, and as long as the mount effect of every later load completes, the user id
  stays the same and every request sent carries it.
\<close>

theorem user_id_stable:
  "((\<exists>w'. mountEffect now rnd w = Inr w') \<longleftrightarrow>
      store w \<noteq> Blocked
      \<and> ((\<exists>v. localStorage w user_id_key = Some v \<and> v \<noteq> []) \<or> store w = Available))
   \<and> (mountEffect now rnd w = Inr w1 \<longrightarrow>
        userId (ui w1) \<noteq> []
        \<and> localStorage w1 user_id_key = Some (userId (ui w1))
        \<and> (\<forall>v. localStorage w user_id_key = Some v \<and> v \<noteq> [] \<longrightarrow>
              userId (ui w1) = v \<and> localStorage w1 = localStorage w)
        \<and> (localStorage w user_id_key = None \<or> localStorage w user_id_key = Some [] \<longrightarrow>
              userId (ui w1) = newUserId now rnd)
        \<and> localStorage (fst (run evs w1)) user_id_key = Some (userId (ui w1))
        \<and> (loads_complete evs w1 \<longrightarrow>
              userId (ui (fst (run evs w1))) = userId (ui w1)
              \<and> (\<forall>r\<in>set (requests (snd (run evs w1))). user_id r = userId (ui w1))))"
proof (intro conjI impI)
  show "(\<exists>w'. mountEffect now rnd w = Inr w') \<longleftrightarrow>
      store w \<noteq> Blocked
      \<and> ((\<exists>v. localStorage w user_id_key = Some v \<and> v \<noteq> []) \<or> store w = Available)"
    by (rule mountEffect_completes_iff)
next
  assume m: "mountEffect now rnd w = Inr w1"
  let ?uid = "userId (ui w1)"
  from mountEffect_signed_in [OF m] have s: "signed_in ?uid w1" .
  then have k: "kept ?uid w1" by (simp add: signed_in_def)
  from k show "?uid \<noteq> []" "localStorage w1 user_id_key = Some ?uid"
    by (simp_all add: kept_def)
  from kept_run [OF k, of evs] show "localStorage (fst (run evs w1)) user_id_key = Some ?uid"
    by (simp add: kept_def)
  show "\<forall>v. localStorage w user_id_key = Some v \<and> v \<noteq> [] \<longrightarrow>
          ?uid = v \<and> localStorage w1 = localStorage w"
    using mountEffect_reuse [OF m] by blast
  {
    assume "localStorage w user_id_key = None \<or> localStorage w user_id_key = Some []"
    from mountEffect_fresh [OF m this] show "?uid = newUserId now rnd" .
  }
  {
    assume l: "loads_complete evs w1"
    from signed_in_run [OF s l]
    show "userId (ui (fst (run evs w1))) = ?uid"
      "\<forall>r\<in>set (requests (snd (run evs w1))). user_id r = ?uid"
      by (simp_all add: signed_in_def)
  }
qed

theorem user_id_stable_witness:
  "mountEffect 5 (js ''k3'') (boot Map.empty)
     = Inr ((boot [user_id_key \<mapsto> js ''user_5_k3''])\<lparr>ui := initial_component\<lparr>userId := js ''user_5_k3''\<rparr>\<rparr>)
   \<and> mountEffect 5 (js ''k3'') ((boot [user_id_key \<mapsto> js ''user_1_zz''])\<lparr>store := Full\<rparr>)
     = Inr ((boot [user_id_key \<mapsto> js ''user_1_zz''])
              \<lparr>store := Full, ui := initial_component\<lparr>userId := js ''user_1_zz''\<rparr>\<rparr>)
   \<and> loads_complete [Change (js ''a''), Click, StoreBecomes Full, Mount 9 (js ''q''),
                       Change (js ''b''), Click]
        ((boot [user_id_key \<mapsto> js ''user_5_k3''])\<lparr>ui := initial_component\<lparr>userId := js ''user_5_k3''\<rparr>\<rparr>)
   \<and> map user_id (requests (snd (run [Change (js ''a''), Click, StoreBecomes Full,
                                        Mount 9 (js ''q''), Change (js ''b''), Click]
        ((boot [user_id_key \<mapsto> js ''user_5_k3''])\<lparr>ui := initial_component\<lparr>userId := js ''user_5_k3''\<rparr>\<rparr>))))
       = [js ''user_5_k3'', js ''user_5_k3'']"
  using user_id_stable [of 5 "js ''k3''" "boot Map.empty"
      "(boot [user_id_key \<mapsto> js ''user_5_k3''])\<lparr>ui := initial_component\<lparr>userId := js ''user_5_k3''\<rparr>\<rparr>"
      "[Change (js ''a''), Click, StoreBecomes Full, Mount 9 (js ''q''), Change (js ''b''), Click]"]
  by (simp add: eval_defs decimal.simps)

text \<open>
  The claim as stated fails for a stored value that is the empty string: it is a value of
  localStorage, yet it is not reused; a fresh id replaces it.
\<close>

theorem empty_stored_user_id_not_reused:
  "localStorage (boot [user_id_key \<mapsto> []]) user_id_key = Some []
   \<and> userId (ui (fst (step (Mount 5 (js ''k3'')) (boot [user_id_key \<mapsto> []]))))
       = js ''user_5_k3''
   \<and> localStorage (fst (step (Mount 5 (js ''k3'')) (boot [user_id_key \<mapsto> []]))) user_id_key
       = Some (js ''user_5_k3'')"
  by (simp add: eval_defs decimal.simps)

section \<open>Properties of the Human-Behavior Modulator\<close>




lemma type_text_cursor: "snd (type_text cfg rnd k s) = k + length s"
  by (induction s arbitrary: k) (simp_all add: split_beta)









end
